theory Spec2Isabelle
  imports Main "HOL-Library.Sublist" "HOL-Library.Word" "HOL-Library.AList"
begin

section \<open>Errors of the data-access layer (package dalerrs)\<close>

text \<open>
  A Go \<open>error\<close> of the data-access layer is a chain: a sentinel, a driver error or an
  opaque error at the end, wrapped by any number of \<open>fmt.Errorf("<prefix>: %w", err)\<close>.
  \<open>PgError\<close> has the fields of \<open>pgconn.PgError\<close> that the translator and the
  message read.
\<close>

record PgError =
  Severity :: string
  Code :: string
  Message :: string
  ConstraintName :: string
  TableName :: string

datatype error =
    ErrConflict
  | ErrNotFound
  | ErrConstraint
  | sql_ErrNoRows
  | pgx_ErrNoRows
  | Pg PgError
  | Opaque string
  | Errorf string error

text \<open>The SQLSTATE codes of package pgerrcode that \<open>TranslatePGError\<close> names.\<close>

definition IntegrityConstraintViolation :: string where
  "IntegrityConstraintViolation = ''23000''"

definition RestrictViolation :: string where
  "RestrictViolation = ''23001''"

definition NotNullViolation :: string where
  "NotNullViolation = ''23502''"

definition ForeignKeyViolation :: string where
  "ForeignKeyViolation = ''23503''"

definition UniqueViolation :: string where
  "UniqueViolation = ''23505''"

definition CheckViolation :: string where
  "CheckViolation = ''23514''"

definition ExclusionViolation :: string where
  "ExclusionViolation = ''23P01''"

text \<open>\<open>err.Error()\<close>: the message of an error; \<open>%w\<close> prints the wrapped message.\<close>

fun Error :: "error \<Rightarrow> string" where
  "Error ErrConflict = ''conflict''"
| "Error ErrNotFound = ''not found''"
| "Error ErrConstraint = ''constraint violation''"
| "Error sql_ErrNoRows = ''sql: no rows in result set''"
| "Error pgx_ErrNoRows = ''no rows in result set''"
| "Error (Pg p) = Severity p @ '': '' @ Message p @ '' (SQLSTATE '' @ Code p @ '')''"
| "Error (Opaque s) = s"
| "Error (Errorf s e) = s @ '': '' @ Error e"

text \<open>\<open>errors.Is(err, target)\<close>: some error of the chain is the target.\<close>

fun errors_Is :: "error \<Rightarrow> error \<Rightarrow> bool" where
  "errors_Is (Errorf s e) target = (Errorf s e = target \<or> errors_Is e target)"
| "errors_Is e target = (e = target)"

text \<open>\<open>errors.As(err, &pgErr)\<close>: the first \<open>*pgconn.PgError\<close> of the chain.\<close>

fun errors_As :: "error \<Rightarrow> PgError option" where
  "errors_As (Pg p) = Some p"
| "errors_As (Errorf s e) = errors_As e"
| "errors_As e = None"

text \<open>
  \<open>strings.HasPrefix\<close>, \<open>strings.HasSuffix\<close>, \<open>strings.TrimPrefix\<close> and
  \<open>strings.TrimSuffix\<close>, as the Go library writes them on byte strings.
\<close>

definition HasPrefix :: "string \<Rightarrow> string \<Rightarrow> bool" where
  "HasPrefix s p \<longleftrightarrow> length s \<ge> length p \<and> take (length p) s = p"

definition HasSuffix :: "string \<Rightarrow> string \<Rightarrow> bool" where
  "HasSuffix s p \<longleftrightarrow> length s \<ge> length p \<and> drop (length s - length p) s = p"

definition TrimPrefix :: "string \<Rightarrow> string \<Rightarrow> string" where
  "TrimPrefix s p = (if HasPrefix s p then drop (length p) s else s)"

definition TrimSuffix :: "string \<Rightarrow> string \<Rightarrow> string" where
  "TrimSuffix s p = (if HasSuffix s p then take (length s - length p) s else s)"

definition IsNotFound :: "error \<Rightarrow> bool" where
  "IsNotFound err \<longleftrightarrow> errors_Is err sql_ErrNoRows \<or> errors_Is err pgx_ErrNoRows"

text \<open>The constraint stem that a foreign-key violation exposes in its message.\<close>

definition constraint_stem :: "PgError \<Rightarrow> string" where
  "constraint_stem pgErr =
     TrimSuffix (TrimPrefix (ConstraintName pgErr) (TableName pgErr @ ''_'')) ''_id_fkey''"

text \<open>\<open>TranslatePGError\<close>; a nil error is \<open>None\<close>.\<close>

definition TranslatePGError :: "error option \<Rightarrow> error option" where
  "TranslatePGError err =
     (case err of
        None \<Rightarrow> None
      | Some e \<Rightarrow>
          (case errors_As e of
             Some pgErr \<Rightarrow>
               if Code pgErr = ForeignKeyViolation
                 then Some (Errorf (constraint_stem pgErr) ErrNotFound)
               else if Code pgErr = UniqueViolation
                 then Some (Errorf (Message pgErr) ErrConflict)
               else if Code pgErr \<in> {IntegrityConstraintViolation, RestrictViolation,
                                      NotNullViolation, CheckViolation, ExclusionViolation}
                 then Some (Errorf (Message pgErr) ErrConstraint)
               else Some e
           | None \<Rightarrow> if IsNotFound e then Some ErrNotFound else Some e))"


section \<open>The build engine (package buildengine)\<close>

text \<open>
  A \<open>time.Time\<close> is an instant, counted in nanoseconds from the zero time; the zero value
  of the type is \<open>0\<close> and \<open>t.Before(u)\<close> is \<open>t < u\<close>.
\<close>

type_synonym Time = int

text \<open>
  \<open>Module\<close> and its \<open>ModuleConfig\<close> with the fields that the engine reads;
  \<open>schema_Module\<close> is a \<open>*schema.Module\<close> with its name and the results of its methods
  \<open>Imports()\<close> and \<open>String()\<close>.
\<close>

record ModuleConfig =
  Module :: string
  Dir :: string
  DeployDir :: string
  Schema :: string

record Module =
  Config :: ModuleConfig
  Dependencies :: "string list"

record schema_Module =
  Name :: string
  Imports :: "string list"
  String :: string

record moduleMeta =
  module :: Module
  lastBuildStartTime :: Time

text \<open>
  The two concurrent maps of the engine are association lists read with \<open>map_of\<close>
  (\<open>Load\<close>), written with \<open>AList.update\<close> (\<open>Store\<close>) and \<open>AList.delete\<close>
  (\<open>Delete\<close>); \<open>Range\<close> visits every key once, in the order of the list.
  \<open>listener\<close> says whether a listener is set.
\<close>

record Engine =
  moduleMetas :: "(string \<times> moduleMeta) list"
  controllerSchema :: "(string \<times> schema_Module) list"
  listener :: bool

definition Range :: "(string \<times> 'v) list \<Rightarrow> (string \<times> 'v) list" where
  "Range m = map (\<lambda>k. (k, the (map_of m k))) (remdups (map fst m))"

text \<open>
  Errors of the build engine: \<open>fmt.Errorf("module %q not found", name)\<close> of
  \<open>buildGraph\<close>, \<open>buildWithCallback\<close> and \<open>build\<close>; \<open>fmt.Errorf("Module %q not found",
  name)\<close> of \<open>tryBuild\<close>; \<open>fmt.Errorf("could not load schema for module %q: %w", name,
  err)\<close>; and an error that a collaborator returned (the compiler, the dependency
  scanner, the topological sort, a callback), kept by its message.
\<close>

datatype build_error =
    ModuleNotFound string
  | ModuleNotFound_tryBuild string
  | CouldNotLoadSchema string string
  | External string

text \<open>
  \<open>buildGraph\<close> with the \<open>for\<close> loop over the dependencies as \<open>buildGraph_deps\<close>;
  the map \<open>out\<close> that the Go code fills in place is passed and returned. \<open>known\<close> are
  the names that a lookup can find: each recursive call that adds a name to \<open>out\<close>
  takes it from there, which is why the recursion ends.
\<close>

definition known :: "Engine \<Rightarrow> string set" where
  "known e = fst ` set (moduleMetas e) \<union> fst ` set (controllerSchema e)"

function buildGraph :: "Engine \<Rightarrow> string \<Rightarrow> (string \<rightharpoonup> string list) \<Rightarrow> build_error + (string \<rightharpoonup> string list)"
  and buildGraph_deps :: "Engine \<Rightarrow> string list \<Rightarrow> (string \<rightharpoonup> string list) \<Rightarrow> build_error + (string \<rightharpoonup> string list)"
where
  "buildGraph e moduleName out =
     (if out moduleName \<noteq> None then Inr out
      else case map_of (moduleMetas e) moduleName of
        Some meta \<Rightarrow>
          buildGraph_deps e (Dependencies (module meta))
            (out(moduleName \<mapsto> Dependencies (module meta)))
      | None \<Rightarrow>
          (case map_of (controllerSchema e) moduleName of
             Some sch \<Rightarrow> buildGraph_deps e (Imports sch) (out(moduleName \<mapsto> Imports sch))
           | None \<Rightarrow> Inl (ModuleNotFound moduleName)))"
| "buildGraph_deps e [] out = Inr out"
| "buildGraph_deps e (dep # deps) out =
     (case buildGraph e dep out of
        Inl err \<Rightarrow> Inl err
      | Inr out' \<Rightarrow> buildGraph_deps e deps out')"
  by pat_completeness auto

lemma buildGraph_dom_mono:
  "buildGraph_buildGraph_deps_dom (Inl (e, n, out)) \<Longrightarrow>
     buildGraph e n out = Inr out' \<Longrightarrow> dom out \<subseteq> dom out'"
  "buildGraph_buildGraph_deps_dom (Inr (e, ds, out)) \<Longrightarrow>
     buildGraph_deps e ds out = Inr out' \<Longrightarrow> dom out \<subseteq> dom out'"
proof (induction e n out and e ds out arbitrary: out' and out'
    rule: buildGraph_buildGraph_deps.pinduct)
  case (1 e moduleName out)
  show ?case
  proof (cases "out moduleName \<noteq> None")
    case True
    with 1(1,4) show ?thesis by (simp add: buildGraph.psimps)
  next
    case False
    show ?thesis
    proof (cases "map_of (moduleMetas e) moduleName")
      case (Some meta)
      with False 1(1,4) have
        "buildGraph_deps e (Dependencies (module meta))
           (out(moduleName \<mapsto> Dependencies (module meta))) = Inr out'"
        by (simp add: buildGraph.psimps)
      from 1(3)[OF False Some this]
      have "dom (out(moduleName \<mapsto> Dependencies (module meta))) \<subseteq> dom out'" .
      moreover have "dom out \<subseteq> dom (out(moduleName \<mapsto> Dependencies (module meta)))"
        by auto
      ultimately show ?thesis by (rule order_trans[rotated])
    next
      case None
      show ?thesis
      proof (cases "map_of (controllerSchema e) moduleName")
        case None': None
        with None False 1(1,4) show ?thesis by (simp add: buildGraph.psimps)
      next
        case (Some sch)
        with None False 1(1,4) have
          "buildGraph_deps e (Imports sch) (out(moduleName \<mapsto> Imports sch)) = Inr out'"
          by (simp add: buildGraph.psimps)
        from 1(2)[OF False None Some this]
        have "dom (out(moduleName \<mapsto> Imports sch)) \<subseteq> dom out'" .
        moreover have "dom out \<subseteq> dom (out(moduleName \<mapsto> Imports sch))"
          by auto
        ultimately show ?thesis by (rule order_trans[rotated])
      qed
    qed
  qed
next
  case (2 e out)
  then show ?case by (simp add: buildGraph_deps.psimps)
next
  case (3 e dep deps out)
  from 3(1,4) obtain out1 where o1: "buildGraph e dep out = Inr out1"
    and o2: "buildGraph_deps e deps out1 = Inr out'"
    by (auto simp: buildGraph_deps.psimps split: sum.splits)
  from 3(2)[OF o1] 3(3)[OF o1 o2] show ?case by blast
qed

termination buildGraph
proof (relation "inv_image (less_than <*lex*> less_than)
    (\<lambda>x. case x of
       Inl (e, n, out) \<Rightarrow> (card (known e - dom out), 0)
     | Inr (e, ds, out) \<Rightarrow> (card (known e - dom out), Suc (length ds)))")
  show "wf (inv_image (less_than <*lex*> less_than)
    (\<lambda>x. case x of
       Inl (e, n, out) \<Rightarrow> (card (known e - dom out), 0::nat)
     | Inr (e, ds, out) \<Rightarrow> (card (known e - dom out), Suc (length ds))))"
    by (intro wf_inv_image wf_lex_prod wf_less_than)
next
  fix e :: Engine and moduleName and out :: "string \<rightharpoonup> string list" and meta
  assume a: "\<not> out moduleName \<noteq> None" "map_of (moduleMetas e) moduleName = Some meta"
  have fin: "finite (known e - dom out)" by (simp add: known_def)
  have "moduleName \<in> known e" using a(2) by (force simp: known_def dest: map_of_SomeD)
  then have "known e - dom (out(moduleName \<mapsto> Dependencies (module meta))) \<subset> known e - dom out"
    using a(1) by auto
  then show "(Inr (e, Dependencies (module meta), out(moduleName \<mapsto> Dependencies (module meta))),
         Inl (e, moduleName, out)) \<in> inv_image (less_than <*lex*> less_than)
    (\<lambda>x. case x of
       Inl (e, n, out) \<Rightarrow> (card (known e - dom out), 0)
     | Inr (e, ds, out) \<Rightarrow> (card (known e - dom out), Suc (length ds)))"
    using psubset_card_mono[OF fin] by simp
next
  fix e :: Engine and moduleName and out :: "string \<rightharpoonup> string list" and sch
  assume a: "\<not> out moduleName \<noteq> None" "map_of (controllerSchema e) moduleName = Some sch"
  have fin: "finite (known e - dom out)" by (simp add: known_def)
  have "moduleName \<in> known e" using a(2) by (force simp: known_def dest: map_of_SomeD)
  then have "known e - dom (out(moduleName \<mapsto> Imports sch)) \<subset> known e - dom out"
    using a(1) by auto
  then show "(Inr (e, Imports sch, out(moduleName \<mapsto> Imports sch)),
         Inl (e, moduleName, out)) \<in> inv_image (less_than <*lex*> less_than)
    (\<lambda>x. case x of
       Inl (e, n, out) \<Rightarrow> (card (known e - dom out), 0)
     | Inr (e, ds, out) \<Rightarrow> (card (known e - dom out), Suc (length ds)))"
    using psubset_card_mono[OF fin] by simp
next
  fix e :: Engine and dep deps and out :: "string \<rightharpoonup> string list"
  show "(Inl (e, dep, out), Inr (e, dep # deps, out)) \<in> inv_image (less_than <*lex*> less_than)
    (\<lambda>x. case x of
       Inl (e, n, out) \<Rightarrow> (card (known e - dom out), 0)
     | Inr (e, ds, out) \<Rightarrow> (card (known e - dom out), Suc (length ds)))"
    by simp
next
  fix e :: Engine and dep deps and out out' :: "string \<rightharpoonup> string list"
  assume "buildGraph e dep out = Inr out'" "buildGraph_buildGraph_deps_dom (Inl (e, dep, out))"
  then have "dom out \<subseteq> dom out'" using buildGraph_dom_mono(1) by blast
  then have "known e - dom out' \<subseteq> known e - dom out" by auto
  moreover have "finite (known e - dom out)" by (simp add: known_def)
  ultimately have "card (known e - dom out') \<le> card (known e - dom out)"
    by (rule card_mono[rotated])
  then show "(Inr (e, deps, out'), Inr (e, dep # deps, out)) \<in> inv_image (less_than <*lex*> less_than)
    (\<lambda>x. case x of
       Inl (e, n, out) \<Rightarrow> (card (known e - dom out), 0)
     | Inr (e, ds, out) \<Rightarrow> (card (known e - dom out), Suc (length ds)))"
    by auto
qed

text \<open>\<open>Graph\<close>: the loop over the requested names is the loop of \<open>buildGraph_deps\<close>.\<close>

definition Graph :: "Engine \<Rightarrow> string list \<Rightarrow> build_error + (string \<rightharpoonup> string list)" where
  "Graph e moduleNames =
     buildGraph_deps e
       (if moduleNames = [] then map fst (Range (moduleMetas e)) else moduleNames)
       Map.empty"

text \<open>
  What the specification says a name resolves to: the dependencies of the local module
  if there is one, the imports of the controller's schema otherwise.
\<close>

definition local_or_controller :: "Engine \<Rightarrow> string \<Rightarrow> string list option" where
  "local_or_controller e n =
     (case map_of (moduleMetas e) n of
        Some meta \<Rightarrow> Some (Dependencies (module meta))
      | None \<Rightarrow> map_option Imports (map_of (controllerSchema e) n))"

text \<open>
  \<open>explored e out out'\<close>: \<open>out'\<close> extends \<open>out\<close>, and every entry it adds is what the
  name resolves to, with all its dependencies entered as well.
\<close>

definition explored :: "Engine \<Rightarrow> (string \<rightharpoonup> string list) \<Rightarrow> (string \<rightharpoonup> string list) \<Rightarrow> bool" where
  "explored e out out' \<longleftrightarrow>
     out \<subseteq>\<^sub>m out' \<and>
     (\<forall>m deps. out' m = Some deps \<and> out m = None \<longrightarrow>
        local_or_controller e m = Some deps \<and> set deps \<subseteq> dom out')"

text \<open>
  Scenario S1: local modules \<open>a\<close> (depending on \<open>b\<close>) and \<open>b\<close> (depending on
  \<open>builtin\<close>); \<open>New\<close> stores the built-in module, which imports nothing, in
  \<open>controllerSchema\<close>.
\<close>

definition S1 :: Engine where
  "S1 = \<lparr>moduleMetas =
            [(''a'', \<lparr>module = \<lparr>Config = \<lparr>Module = ''a'', Dir = ''/a'', DeployDir = ''_ftl'',
                                           Schema = ''schema.pb''\<rparr>,
                              Dependencies = [''b'']\<rparr>, lastBuildStartTime = 0\<rparr>),
             (''b'', \<lparr>module = \<lparr>Config = \<lparr>Module = ''b'', Dir = ''/b'', DeployDir = ''_ftl'',
                                           Schema = ''schema.pb''\<rparr>,
                              Dependencies = [''builtin'']\<rparr>, lastBuildStartTime = 0\<rparr>)],
          controllerSchema =
            [(''builtin'', \<lparr>Name = ''builtin'', Imports = [], String = ''module builtin''\<rparr>)],
          listener = False\<rparr>"


subsection \<open>Building\<close>

text \<open>
  The collaborators of the engine that are not part of it: \<open>UpdateDependencies\<close>
  re-reads the dependencies of a module from its sources; \<open>compile\<close> stands for
  \<open>gatherSchemas\<close> followed by the language compiler \<open>Build\<close>, which sees the engine's
  metas and the schemas built so far; \<open>ModuleFromProtoFile\<close> loads the schema that the
  compiler wrote; \<open>TopologicalSort\<close> orders the graph in groups; \<open>Builtins\<close> is the
  schema of the built-in module; \<open>clock m\<close> is what \<open>time.Now()\<close> returns to the worker
  of module \<open>m\<close>. Each returns an error as its message.
\<close>

record env =
  UpdateDependencies :: "Module \<Rightarrow> string + Module"
  compile :: "Engine \<Rightarrow> (string \<rightharpoonup> schema_Module) \<Rightarrow> Module \<Rightarrow> string option"
  ModuleFromProtoFile :: "ModuleConfig \<Rightarrow> string + schema_Module"
  TopologicalSort :: "(string \<rightharpoonup> string list) \<Rightarrow> string + string list list"
  Builtins :: schema_Module
  clock :: "string \<Rightarrow> Time"

text \<open>
  A worker returns its error, the schemas it sent on the \<open>schemas\<close> channel, the
  warnings it logged (the module and the dependency named by "build skipped because
  dependency %q failed to build") and the engine it leaves.
\<close>

type_synonym worker_result =
  "build_error option \<times> schema_Module list \<times> (string \<times> string) list \<times> Engine"

definition build ::
  "env \<Rightarrow> Engine \<Rightarrow> string \<Rightarrow> (string \<rightharpoonup> schema_Module)
     \<Rightarrow> build_error option \<times> schema_Module list" where
  "build ev e moduleName builtModules =
     (case map_of (moduleMetas e) moduleName of
        None \<Rightarrow> (Some (ModuleNotFound moduleName), [])
      | Some meta \<Rightarrow>
          (case compile ev e builtModules (module meta) of
             Some err \<Rightarrow> (Some (External err), [])
           | None \<Rightarrow>
               (case ModuleFromProtoFile ev (Config (module meta)) of
                  Inl err \<Rightarrow>
                    (Some (CouldNotLoadSchema (Module (Config (module meta))) err), [])
                | Inr moduleSchema \<Rightarrow> (None, [moduleSchema]))))"

definition mustSchema ::
  "env \<Rightarrow> Engine \<Rightarrow> string \<Rightarrow> (string \<rightharpoonup> schema_Module)
     \<Rightarrow> build_error option \<times> schema_Module list" where
  "mustSchema ev e moduleName builtModules =
     (case map_of (controllerSchema e) moduleName of
        Some sch \<Rightarrow> (None, [sch])
      | None \<Rightarrow> build ev e moduleName builtModules)"

definition tryBuild ::
  "env \<Rightarrow> Engine \<Rightarrow> string set \<Rightarrow> string \<Rightarrow> (string \<rightharpoonup> schema_Module)
     \<Rightarrow> (Module \<Rightarrow> string option) option \<Rightarrow> worker_result" where
  "tryBuild ev e mustBuild moduleName builtModules callback =
     (if moduleName \<notin> mustBuild then
        (case mustSchema ev e moduleName builtModules of (err, schs) \<Rightarrow> (err, schs, [], e))
      else
        (case map_of (moduleMetas e) moduleName of
           None \<Rightarrow> (Some (ModuleNotFound_tryBuild moduleName), [], [], e)
         | Some meta \<Rightarrow>
             (case find (\<lambda>dep. builtModules dep = None) (Dependencies (module meta)) of
                Some dep \<Rightarrow> (None, [], [(moduleName, dep)], e)
              | None \<Rightarrow>
                  (let meta' = meta\<lparr>lastBuildStartTime := clock ev moduleName\<rparr>;
                       e' = e\<lparr>moduleMetas := AList.update moduleName meta' (moduleMetas e)\<rparr>
                   in case build ev e' moduleName builtModules of
                        (None, schs) \<Rightarrow>
                          (case callback of
                             Some cb \<Rightarrow> (map_option External (cb (module meta')), schs, [], e')
                           | None \<Rightarrow> (None, schs, [], e'))
                      | (Some err, schs) \<Rightarrow> (Some err, schs, [], e')))))"

text \<open>
  A group of the topology. Its workers run concurrently; each writes only the meta of its
  own module and reads \<open>builtModules\<close>, which no worker writes, so the model runs them
  one after the other in the order of the group. Every error is kept with the name of
  the module whose worker returned it.
\<close>

fun buildGroup ::
  "env \<Rightarrow> string set \<Rightarrow> (string \<rightharpoonup> schema_Module) \<Rightarrow> (Module \<Rightarrow> string option) option
     \<Rightarrow> string list \<Rightarrow> Engine
     \<Rightarrow> (string \<times> build_error) list \<times> schema_Module list \<times> (string \<times> string) list \<times> Engine"
where
  "buildGroup ev mustBuild builtModules callback [] e = ([], [], [], e)"
| "buildGroup ev mustBuild builtModules callback (moduleName # rest) e =
     (case tryBuild ev e mustBuild moduleName builtModules callback of
        (err, schs, warns, e1) \<Rightarrow>
          (case buildGroup ev mustBuild builtModules callback rest e1 of
             (errs, schs', warns', e2) \<Rightarrow>
               ((case err of None \<Rightarrow> [] | Some x \<Rightarrow> [(moduleName, x)]) @ errs,
                schs @ schs', warns @ warns', e2)))"

text \<open>After a group, its schemas are merged into \<open>builtModules\<close> by their names.\<close>

fun collect :: "schema_Module list \<Rightarrow> (string \<rightharpoonup> schema_Module) \<Rightarrow> (string \<rightharpoonup> schema_Module)" where
  "collect [] builtModules = builtModules"
| "collect (sch # schs) builtModules = collect schs (builtModules(Name sch \<mapsto> sch))"

fun buildGroups ::
  "env \<Rightarrow> string set \<Rightarrow> (Module \<Rightarrow> string option) option \<Rightarrow> string list list
     \<Rightarrow> (string \<rightharpoonup> schema_Module) \<Rightarrow> Engine
     \<Rightarrow> (string \<times> build_error) list \<times> (string \<times> string) list
        \<times> (string \<rightharpoonup> schema_Module) \<times> Engine"
where
  "buildGroups ev mustBuild callback [] builtModules e = ([], [], builtModules, e)"
| "buildGroups ev mustBuild callback (grp # topology) builtModules e =
     (case buildGroup ev mustBuild builtModules callback grp e of
        (errs, schs, warns, e1) \<Rightarrow>
          (case buildGroups ev mustBuild callback topology (collect schs builtModules) e1 of
             (errs', warns', built, e2) \<Rightarrow> (errs @ errs', warns @ warns', built, e2)))"


text \<open>
  What \<open>buildWithCallback\<close> returns: \<open>nil\<close>, an error of its own, or
  \<open>errors.Join\<close> of the workers' errors. \<open>failures\<close> lists those errors with the module
  each comes from, \<open>warnings\<close> the skipped modules, \<open>built\<close> the schemas, \<open>after\<close>
  the engine.
\<close>

datatype returned = Nil | Err build_error | Join "build_error list"

record built_result =
  returned :: returned
  failures :: "(string \<times> build_error) list"
  warnings :: "(string \<times> string) list"
  built :: "string \<rightharpoonup> schema_Module"
  after :: Engine



text \<open>The dependencies that the meta of a local module declares.\<close>

definition declared :: "Engine \<Rightarrow> string \<Rightarrow> string list option" where
  "declared e n = map_option (\<lambda>meta. Dependencies (module meta)) (map_of (moduleMetas e) n)"

text \<open>
  A scenario: local modules \<open>a\<close> (depending on \<open>builtin\<close>) and \<open>b\<close> (depending on
  \<open>a\<close>), a compiler that fails on \<open>a\<close>, and the topology \<open>[[builtin], [a], [b]]\<close>.
\<close>

definition builtin_schema :: schema_Module where
  "builtin_schema = \<lparr>Name = ''builtin'', Imports = [], String = ''module builtin''\<rparr>"

definition local_module :: "string \<Rightarrow> string list \<Rightarrow> Time \<Rightarrow> moduleMeta" where
  "local_module n deps t =
     \<lparr>module = \<lparr>Config = \<lparr>Module = n, Dir = n, DeployDir = ''_ftl'', Schema = ''schema.pb''\<rparr>,
                Dependencies = deps\<rparr>,
      lastBuildStartTime = t\<rparr>"




subsection \<open>The dev loop\<close>

text \<open>
  The events that \<open>watchForModuleChanges\<close> selects on. A schema change carries the
  module with \<open>DEPLOYMENT_ADDED\<close> and \<open>DEPLOYMENT_CHANGED\<close> and none with
  \<open>DEPLOYMENT_REMOVED\<close>, as \<open>startSchemaSync\<close> publishes them.
\<close>

datatype WatchEvent =
    WatchEventModuleAdded Module
  | WatchEventModuleRemoved Module
  | WatchEventModuleChanged Module Time

datatype schemaChange =
    DEPLOYMENT_ADDED schema_Module
  | DEPLOYMENT_REMOVED
  | DEPLOYMENT_CHANGED schema_Module

datatype event =
    ctx_Done
  | completedUpdatesTimer
  | watchEvents WatchEvent
  | schemaChanges schemaChange

text \<open>
  What an iteration does outside the loop's own state: the calls of \<open>BuildAndDeploy\<close>
  (with the module names) and of \<open>terminateModuleDeployment\<close>, and the reports to the
  listener.
\<close>

datatype effect =
    BuildAndDeploy_call "string list"
  | terminateModuleDeployment_call string
  | OnBuildFailed string
  | OnBuildSuccess

fun BuildAndDeploy_calls :: "effect list \<Rightarrow> string list list" where
  "BuildAndDeploy_calls [] = []"
| "BuildAndDeploy_calls (BuildAndDeploy_call names # effs) = names # BuildAndDeploy_calls effs"
| "BuildAndDeploy_calls (x # effs) = BuildAndDeploy_calls effs"

text \<open>
  \<open>BuildAndDeploy\<close> runs compilers and remote calls; the loop reads only its error and
  goes on with the engine it leaves, so it is a parameter here, as are
  \<open>terminateModuleDeployment\<close> and SHA-256.
\<close>

type_synonym byte = "8 word"

record dev_env =
  BuildAndDeploy :: "Engine \<Rightarrow> string list \<Rightarrow> string option \<times> Engine"
  terminateModuleDeployment :: "string \<Rightarrow> string option"
  sha256 :: "string \<Rightarrow> byte list"

record loop_state =
  engine :: Engine
  moduleHashes :: "string \<rightharpoonup> byte list"
  didUpdateDeployments :: bool
  didError :: bool

definition reportBuildFailed :: "Engine \<Rightarrow> string \<Rightarrow> effect list" where
  "reportBuildFailed e err = (if listener e then [OnBuildFailed err] else [])"

definition reportSuccess :: "Engine \<Rightarrow> effect list" where
  "reportSuccess e = (if listener e then [OnBuildSuccess] else [])"

definition computeModuleHash :: "dev_env \<Rightarrow> schema_Module \<Rightarrow> byte list" where
  "computeModuleHash ev m = sha256 ev (String m)"

text \<open>\<open>bytes.Equal\<close>; the hash of a name that \<open>moduleHashes\<close> lacks is the nil slice.\<close>

definition bytes_Equal :: "byte list \<Rightarrow> byte list \<Rightarrow> bool" where
  "bytes_Equal a b \<longleftrightarrow> a = b"

definition stored_hash :: "loop_state \<Rightarrow> string \<Rightarrow> byte list" where
  "stored_hash st name = (case moduleHashes st name of None \<Rightarrow> [] | Some h \<Rightarrow> h)"

definition getDependentModuleNames :: "Engine \<Rightarrow> string \<Rightarrow> string list" where
  "getDependentModuleNames e moduleName =
     remdups (map fst (filter (\<lambda>(name, meta). moduleName \<in> set (Dependencies (module meta)))
                         (Range (moduleMetas e))))"

text \<open>
  The three places that build and deploy do the same: clear \<open>didError\<close>, call
  \<open>BuildAndDeploy\<close>, and either set \<open>didError\<close> and report the failure or set
  \<open>didUpdateDeployments\<close>.
\<close>

definition deploy_and_report :: "dev_env \<Rightarrow> string list \<Rightarrow> loop_state \<Rightarrow> loop_state \<times> effect list" where
  "deploy_and_report ev names st =
     (case BuildAndDeploy ev (engine st) names of
        (Some err, e') \<Rightarrow>
          (st\<lparr>engine := e', didError := True\<rparr>,
           BuildAndDeploy_call names # reportBuildFailed e' err)
      | (None, e') \<Rightarrow>
          (st\<lparr>engine := e', didError := False, didUpdateDeployments := True\<rparr>,
           [BuildAndDeploy_call names]))"

text \<open>
  One iteration of the loop on the event that the \<open>select\<close> received: the state after
  it and its effects, or \<open>None\<close> when the loop returns (the context is done). The timer
  is armed only while \<open>didUpdateDeployments\<close> holds.
\<close>

fun watchForModuleChanges_step ::
  "dev_env \<Rightarrow> loop_state \<Rightarrow> event \<Rightarrow> (loop_state \<times> effect list) option" where
  "watchForModuleChanges_step ev st ctx_Done = None"
| "watchForModuleChanges_step ev st completedUpdatesTimer =
     (if didUpdateDeployments st
      then Some (st\<lparr>didUpdateDeployments := False\<rparr>,
                 if \<not> didError st then reportSuccess (engine st) else [])
      else Some (st, []))"
| "watchForModuleChanges_step ev st (watchEvents (WatchEventModuleAdded m)) =
     (if map_of (moduleMetas (engine st)) (Module (Config m)) = None
      then Some (deploy_and_report ev [Module (Config m)]
                   (st\<lparr>engine := (engine st)\<lparr>moduleMetas :=
                        AList.update (Module (Config m)) \<lparr>module = m, lastBuildStartTime = 0\<rparr>
                          (moduleMetas (engine st))\<rparr>\<rparr>))
      else Some (st, []))"
| "watchForModuleChanges_step ev st (watchEvents (WatchEventModuleRemoved m)) =
     (let e' = (engine st)\<lparr>moduleMetas := AList.delete (Module (Config m)) (moduleMetas (engine st))\<rparr>
      in case terminateModuleDeployment ev (Module (Config m)) of
           Some err \<Rightarrow>
             Some (st\<lparr>engine := e', didError := True\<rparr>,
                   terminateModuleDeployment_call (Module (Config m))
                     # reportBuildFailed (engine st) err)
         | None \<Rightarrow>
             Some (st\<lparr>engine := e', didUpdateDeployments := True\<rparr>,
                   [terminateModuleDeployment_call (Module (Config m))]))"
| "watchForModuleChanges_step ev st (watchEvents (WatchEventModuleChanged m t)) =
     (case map_of (moduleMetas (engine st)) (Module (Config m)) of
        None \<Rightarrow> Some (st, [])
      | Some meta \<Rightarrow>
          if t < lastBuildStartTime meta then Some (st, [])
          else Some (deploy_and_report ev [Module (Config m)] st))"
| "watchForModuleChanges_step ev st (schemaChanges (DEPLOYMENT_CHANGED sch)) =
     (let hash = computeModuleHash ev sch in
      if bytes_Equal hash (stored_hash st (Name sch)) then Some (st, [])
      else
        (let st' = st\<lparr>moduleHashes := (moduleHashes st)(Name sch \<mapsto> hash)\<rparr>;
             dependentModuleNames = getDependentModuleNames (engine st) (Name sch)
         in if length dependentModuleNames > 0
            then Some (deploy_and_report ev dependentModuleNames st')
            else Some (st', [])))"
| "watchForModuleChanges_step ev st (schemaChanges change) = Some (st, [])"


text \<open>The engine after \<open>moduleMetas.Store(name, moduleMeta{module: m})\<close>.\<close>

definition registered :: "Engine \<Rightarrow> Module \<Rightarrow> Engine" where
  "registered e m =
     e\<lparr>moduleMetas := AList.update (Module (Config m)) \<lparr>module = m, lastBuildStartTime = 0\<rparr>
                         (moduleMetas e)\<rparr>"

text \<open>
  A scenario for the loop: module \<open>a\<close> was last built at instant 5, \<open>b\<close> never;
  \<open>BuildAndDeploy\<close> and \<open>terminateModuleDeployment\<close> succeed and leave the engine as it
  is; the stand-in for SHA-256 is the length of the text.
\<close>

definition quiet_env :: dev_env where
  "quiet_env =
     \<lparr>BuildAndDeploy = (\<lambda>e names. (None, e)),
      terminateModuleDeployment = (\<lambda>name. None),
      sha256 = (\<lambda>s. [of_nat (length s)])\<rparr>"

definition watching :: loop_state where
  "watching =
     \<lparr>engine = \<lparr>moduleMetas = [(''a'', local_module ''a'' [''builtin''] 5),
                                (''b'', local_module ''b'' [''a''] 0)],
                controllerSchema = [(''builtin'', builtin_schema)],
                listener = False\<rparr>,
      moduleHashes = Map.empty,
      didUpdateDeployments = False,
      didError = False\<rparr>"



section \<open>The relational store (001_init.sql)\<close>

text \<open>
  A \<open>TIMESTAMPTZ\<close> is an instant and an \<open>INTERVAL\<close> a duration, both counted in
  microseconds. A nullable column is an \<open>option\<close>.
\<close>

type_synonym timestamptz = int
type_synonym interval = int

subsection \<open>Runners and the reservation trigger\<close>

datatype runner_state = idle | reserved | assigned | dead

record runner =
  key :: string
  reservation_timeout :: "timestamptz option"
  state :: runner_state
  endpoint :: string
  deployment_id :: "nat option"

text \<open>
  A condition of SQL is true, false or null (\<open>None\<close>); a comparison with a null
  operand is null, and \<open>IF\<close> takes its branch only on true.
\<close>

type_synonym sql_bool = "bool option"

definition sql_ne :: "'a option \<Rightarrow> 'a option \<Rightarrow> sql_bool" where
  "sql_ne a b = (case a of None \<Rightarrow> None
                 | Some x \<Rightarrow> (case b of None \<Rightarrow> None | Some y \<Rightarrow> Some (x \<noteq> y)))"

definition sql_eq :: "'a option \<Rightarrow> 'a option \<Rightarrow> sql_bool" where
  "sql_eq a b = (case a of None \<Rightarrow> None
                 | Some x \<Rightarrow> (case b of None \<Rightarrow> None | Some y \<Rightarrow> Some (x = y)))"

definition sql_and :: "sql_bool \<Rightarrow> sql_bool \<Rightarrow> sql_bool" where
  "sql_and a b =
     (if a = Some False \<or> b = Some False then Some False
      else if a = Some True \<and> b = Some True then Some True
      else None)"

definition sql_is_null :: "'a option \<Rightarrow> sql_bool" where
  "sql_is_null a = Some (a = None)"

definition two_minutes :: interval where
  "two_minutes = 120000000"

text \<open>
  The trigger function \<open>runners_set_reservation_timeout\<close>, which runs
  \<open>BEFORE INSERT OR UPDATE\<close> for each row. \<open>OLD\<close> is the row before an update and
  null (\<open>None\<close>) on an insert, where \<open>OLD.state\<close> is null; \<open>NEW.state\<close> is the state
  being written.
\<close>

definition runners_set_reservation_timeout :: "timestamptz \<Rightarrow> runner option \<Rightarrow> runner \<Rightarrow> runner" where
  "runners_set_reservation_timeout now OLD NEW =
     (if sql_and (sql_and (sql_ne (map_option runner.state OLD) (Some reserved))
                          (sql_eq (Some (runner.state NEW)) (Some reserved)))
                 (sql_is_null (reservation_timeout NEW)) = Some True
      then NEW\<lparr>reservation_timeout := Some (now + two_minutes)\<rparr>
      else NEW)"

text \<open>The rows of the table after an \<open>INSERT\<close> and after an \<open>UPDATE\<close> of the row of a key.\<close>

definition insert_runner :: "timestamptz \<Rightarrow> runner \<Rightarrow> runner list \<Rightarrow> runner list" where
  "insert_runner now NEW rows = rows @ [runners_set_reservation_timeout now None NEW]"

definition update_runner ::
  "timestamptz \<Rightarrow> string \<Rightarrow> (runner \<Rightarrow> runner) \<Rightarrow> runner list \<Rightarrow> runner list" where
  "update_runner now k set_columns rows =
     map (\<lambda>r. if runner.key r = k
              then runners_set_reservation_timeout now (Some r) (set_columns r)
              else r) rows"

text \<open>A runner that registers while it is reserved, as \<open>UpsertRunner\<close> inserts it.\<close>

definition reserved_runner :: runner where
  "reserved_runner =
     \<lparr>key = ''r1'', reservation_timeout = None, state = reserved,
      endpoint = ''http://127.0.0.1:8893'', deployment_id = None\<rparr>"

subsection \<open>Deployments and the index of active deployments\<close>

record deployment =
  id :: nat
  module_id :: nat
  key :: string
  min_replicas :: int

text \<open>
  \<open>CREATE UNIQUE INDEX deployments_unique_idx ON deployments (module_id) WHERE
  min_replicas > 0\<close>: no two rows with positive \<open>min_replicas\<close> have the same module;
  \<open>deployments_key_idx\<close> is the unique index on \<open>key\<close>.
\<close>

definition deployments_unique_idx :: "deployment list \<Rightarrow> bool" where
  "deployments_unique_idx rows \<longleftrightarrow>
     distinct (map module_id (filter (\<lambda>d. min_replicas d > 0) rows))"

definition deployments_key_idx :: "deployment list \<Rightarrow> bool" where
  "deployments_key_idx rows \<longleftrightarrow> distinct (map deployment.key rows)"

text \<open>The invariant in the words of the specification.\<close>

definition at_most_one_active :: "deployment list \<Rightarrow> bool" where
  "at_most_one_active rows \<longleftrightarrow>
     (\<forall>M. length (filter (\<lambda>d. module_id d = M \<and> min_replicas d > 0) rows) \<le> 1)"

definition unique_violation :: "string \<Rightarrow> string \<Rightarrow> error" where
  "unique_violation table index =
     Pg \<lparr>Severity = ''ERROR'', Code = UniqueViolation,
         Message = ''duplicate key value violates unique constraint '' @ index,
         ConstraintName = index, TableName = table\<rparr>"

text \<open>
  A statement that would leave the rows \<open>rows'\<close>: the store keeps them when the unique
  indexes hold of them, and otherwise raises the unique violation and keeps the rows it
  had.
\<close>

definition write_deployments :: "deployment list \<Rightarrow> deployment list \<Rightarrow> error option \<times> deployment list" where
  "write_deployments rows rows' =
     (if \<not> deployments_key_idx rows'
        then (Some (unique_violation ''deployments'' ''deployments_key_idx''), rows)
      else if \<not> deployments_unique_idx rows'
        then (Some (unique_violation ''deployments'' ''deployments_unique_idx''), rows)
      else (None, rows'))"

text \<open>
  Modelled from the spec: the data-access operations on deployments, whose queries and Go
  wrappers are not among the sources. "Create deployment: a new deployment row with
  \<open>min_replicas = 0\<close> and a fresh key"; the direct update of \<open>min_replicas\<close> of one
  deployment; "Replace deploy: in one transaction, set the new row's \<open>min_replicas\<close>, set
  the old row's \<open>min_replicas = 0\<close>". Each passes the error of the store through
  \<open>TranslatePGError\<close>.
\<close>

datatype deployment_op =
    CreateDeployment nat string
  | SetDeploymentDesiredReplicas string int
  | ReplaceDeployment string string int

fun intended :: "deployment_op \<Rightarrow> deployment list \<Rightarrow> deployment list" where
  "intended (CreateDeployment m k) rows =
     rows @ [\<lparr>id = Suc (fold max (map deployment.id rows) 0), module_id = m, key = k,
              min_replicas = 0\<rparr>]"
| "intended (SetDeploymentDesiredReplicas k n) rows =
     map (\<lambda>d. if deployment.key d = k then d\<lparr>min_replicas := n\<rparr> else d) rows"
| "intended (ReplaceDeployment old new n) rows =
     map (\<lambda>d. if deployment.key d = old then d\<lparr>min_replicas := 0\<rparr>
              else if deployment.key d = new then d\<lparr>min_replicas := n\<rparr>
              else d) rows"

definition perform :: "deployment_op \<Rightarrow> deployment list \<Rightarrow> error option \<times> deployment list" where
  "perform op rows =
     (case write_deployments rows (intended op rows) of
        (err, rows') \<Rightarrow> (TranslatePGError err, rows'))"

fun perform_all :: "deployment_op list \<Rightarrow> deployment list \<Rightarrow> deployment list" where
  "perform_all [] rows = rows"
| "perform_all (op # ops) rows = perform_all ops (snd (perform op rows))"

text \<open>
  Scenario S4 after \<open>ReplaceDeploy(old = d1, new = d2, min_replicas = 2)\<close>: both
  deployments belong to module 1.
\<close>

definition S4 :: "deployment list" where
  "S4 = [\<lparr>id = 1, module_id = 1, key = ''m-d1'', min_replicas = 0\<rparr>,
         \<lparr>id = 2, module_id = 1, key = ''m-d2'', min_replicas = 2\<rparr>]"


section \<open>Properties\<close>

subsection \<open>Error translation\<close>

lemmas pgerrcode_defs =
  IntegrityConstraintViolation_def RestrictViolation_def NotNullViolation_def
  ForeignKeyViolation_def UniqueViolation_def CheckViolation_def ExclusionViolation_def

lemma IsNotFound_no_PgError: "IsNotFound e \<Longrightarrow> errors_As e = None"
  by (induction e) (auto simp: IsNotFound_def)

lemma TranslatePGError_nil: "TranslatePGError None = None"
  by (simp add: TranslatePGError_def)

text \<open>
  Claim C3. \<open>TranslatePGError\<close> maps an error that carries a Postgres foreign-key
  violation to an error wrapping \<open>ErrNotFound\<close> whose message is the constraint stem
  followed by \<open>: not found\<close>; one that carries a unique violation to an error wrapping
  \<open>ErrConflict\<close>; one that carries an integrity, restrict, not-null, check or exclusion
  violation to an error wrapping \<open>ErrConstraint\<close>; every error that is a "no rows" error
  to \<open>ErrNotFound\<close> itself; and it returns every other error as it is.
\<close>

theorem TranslatePGError_taxonomy:
  "(errors_As e = Some pgErr \<and> Code pgErr = ForeignKeyViolation \<longrightarrow>
      TranslatePGError (Some e) = Some (Errorf (constraint_stem pgErr) ErrNotFound)
      \<and> errors_Is (Errorf (constraint_stem pgErr) ErrNotFound) ErrNotFound
      \<and> Error (Errorf (constraint_stem pgErr) ErrNotFound)
          = constraint_stem pgErr @ '': not found'')
   \<and> (errors_As e = Some pgErr \<and> Code pgErr = UniqueViolation \<longrightarrow>
      TranslatePGError (Some e) = Some (Errorf (Message pgErr) ErrConflict)
      \<and> errors_Is (Errorf (Message pgErr) ErrConflict) ErrConflict)
   \<and> (errors_As e = Some pgErr \<and>
        Code pgErr \<in> {IntegrityConstraintViolation, RestrictViolation,
                        NotNullViolation, CheckViolation, ExclusionViolation} \<longrightarrow>
      TranslatePGError (Some e) = Some (Errorf (Message pgErr) ErrConstraint)
      \<and> errors_Is (Errorf (Message pgErr) ErrConstraint) ErrConstraint)
   \<and> (IsNotFound e \<longrightarrow> TranslatePGError (Some e) = Some ErrNotFound)
   \<and> (\<not> IsNotFound e \<and>
        (case errors_As e of
           None \<Rightarrow> True
         | Some p \<Rightarrow>
             Code p \<notin> {ForeignKeyViolation, UniqueViolation, IntegrityConstraintViolation,
                         RestrictViolation, NotNullViolation, CheckViolation,
                         ExclusionViolation}) \<longrightarrow>
      TranslatePGError (Some e) = Some e)"
proof (intro conjI impI)
  assume "IsNotFound e"
  then show "TranslatePGError (Some e) = Some ErrNotFound"
    by (simp add: TranslatePGError_def IsNotFound_no_PgError)
qed (auto simp: TranslatePGError_def pgerrcode_defs split: option.splits)

theorem TranslatePGError_taxonomy_witness:
  "TranslatePGError (Some (Errorf ''insert runner''
       (Pg \<lparr>Severity = ''ERROR'', Code = ''23503'', Message = ''violates foreign key'',
           ConstraintName = ''runners_deployment_id_fkey'', TableName = ''runners''\<rparr>)))
     = Some (Errorf ''deployment'' ErrNotFound)
   \<and> Error (Errorf ''deployment'' ErrNotFound) = ''deployment: not found''
   \<and> TranslatePGError (Some (Pg \<lparr>Severity = ''ERROR'', Code = ''23505'',
         Message = ''duplicate key'', ConstraintName = ''deployments_unique_idx'',
         TableName = ''deployments''\<rparr>)) = Some (Errorf ''duplicate key'' ErrConflict)
   \<and> TranslatePGError (Some (Pg \<lparr>Severity = ''ERROR'', Code = ''23502'',
         Message = ''null value'', ConstraintName = [], TableName = ''runners''\<rparr>))
       = Some (Errorf ''null value'' ErrConstraint)
   \<and> TranslatePGError (Some (Errorf ''get runner'' pgx_ErrNoRows)) = Some ErrNotFound
   \<and> TranslatePGError (Some (Opaque ''connection refused''))
       = Some (Opaque ''connection refused'')"
proof -
  let ?fk = "\<lparr>Severity = ''ERROR'', Code = ''23503'', Message = ''violates foreign key'',
           ConstraintName = ''runners_deployment_id_fkey'', TableName = ''runners''\<rparr>"
  let ?uq = "\<lparr>Severity = ''ERROR'', Code = ''23505'',
         Message = ''duplicate key'', ConstraintName = ''deployments_unique_idx'',
         TableName = ''deployments''\<rparr>"
  let ?nn = "\<lparr>Severity = ''ERROR'', Code = ''23502'',
         Message = ''null value'', ConstraintName = [], TableName = ''runners''\<rparr>"
  have stem: "constraint_stem ?fk = ''deployment''"
    by (simp add: constraint_stem_def TrimPrefix_def TrimSuffix_def HasPrefix_def HasSuffix_def)
  show ?thesis
    using TranslatePGError_taxonomy [of "Errorf ''insert runner'' (Pg ?fk)" ?fk]
      TranslatePGError_taxonomy [of "Pg ?uq" ?uq]
      TranslatePGError_taxonomy [of "Pg ?nn" ?nn]
      TranslatePGError_taxonomy [of "Errorf ''get runner'' pgx_ErrNoRows"]
      TranslatePGError_taxonomy [of "Opaque ''connection refused''"]
    by (simp add: stem pgerrcode_defs IsNotFound_def)
qed

subsection \<open>The dependency graph\<close>

lemma explored_refl: "explored e out out"
  by (auto simp: explored_def)

lemma explored_trans:
  assumes "explored e out out1" "explored e out1 out2"
  shows "explored e out out2"
  unfolding explored_def
proof (intro conjI allI impI)
  show "out \<subseteq>\<^sub>m out2" using assms by (auto simp: explored_def intro: map_le_trans)
next
  fix m deps assume a: "out2 m = Some deps \<and> out m = None"
  show "local_or_controller e m = Some deps"
  proof (cases "out1 m")
    case None
    with a assms(2) show ?thesis by (auto simp: explored_def)
  next
    case (Some d1)
    with assms(2) have "out2 m = Some d1" by (auto simp: explored_def map_le_def dom_def)
    with a Some assms(1) show ?thesis by (auto simp: explored_def)
  qed
  show "set deps \<subseteq> dom out2"
  proof (cases "out1 m")
    case None
    with a assms(2) show ?thesis by (auto simp: explored_def)
  next
    case (Some d1)
    with assms(2) have "out2 m = Some d1" by (auto simp: explored_def map_le_def dom_def)
    with a Some assms(1) have "set deps \<subseteq> dom out1" by (auto simp: explored_def)
    moreover have "dom out1 \<subseteq> dom out2" using assms(2) by (auto simp: explored_def dest: map_le_implies_dom_le)
    ultimately show ?thesis by blast
  qed
qed

lemma explored_step:
  assumes "out n = None" "local_or_controller e n = Some deps"
    "explored e (out(n \<mapsto> deps)) out'" "set deps \<subseteq> dom out'"
  shows "explored e out out' \<and> n \<in> dom out'"
proof -
  have le: "out(n \<mapsto> deps) \<subseteq>\<^sub>m out'" using assms(3) by (simp add: explored_def)
  then have n: "out' n = Some deps" by (auto simp: map_le_def dom_def split: if_splits)
  have "out \<subseteq>\<^sub>m out(n \<mapsto> deps)" using assms(1) by (auto simp: map_le_def dom_def)
  then have "out \<subseteq>\<^sub>m out'" using le by (rule map_le_trans)
  moreover have "local_or_controller e m = Some d \<and> set d \<subseteq> dom out'"
    if "out' m = Some d" "out m = None" for m d
  proof (cases "m = n")
    case True
    with that n assms show ?thesis by simp
  next
    case False
    with that have "(out(n \<mapsto> deps)) m = None" by simp
    with that(1) assms(3) show ?thesis unfolding explored_def by blast
  qed
  ultimately show ?thesis using n by (auto simp: explored_def)
qed

lemma buildGraph_explores:
  "(\<forall>out'. buildGraph e n out = Inr out' \<longrightarrow> explored e out out' \<and> n \<in> dom out') \<and>
   (\<forall>err. buildGraph e n out = Inl err \<longrightarrow>
      (\<exists>m. err = ModuleNotFound m \<and> local_or_controller e m = None))"
  "(\<forall>out'. buildGraph_deps e ds out = Inr out' \<longrightarrow> explored e out out' \<and> set ds \<subseteq> dom out') \<and>
   (\<forall>err. buildGraph_deps e ds out = Inl err \<longrightarrow>
      (\<exists>m. err = ModuleNotFound m \<and> local_or_controller e m = None))"
proof (induction e n out and e ds out rule: buildGraph_buildGraph_deps.induct)
  case (1 e moduleName out)
  show ?case
  proof (cases "out moduleName \<noteq> None")
    case True
    then show ?thesis by (auto simp: explored_refl)
  next
    case False
    show ?thesis
    proof (cases "map_of (moduleMetas e) moduleName")
      case (Some meta)
      have loc: "local_or_controller e moduleName = Some (Dependencies (module meta))"
        using Some by (simp add: local_or_controller_def)
      have bg: "buildGraph e moduleName out =
          buildGraph_deps e (Dependencies (module meta))
            (out(moduleName \<mapsto> Dependencies (module meta)))"
        using False Some by simp
      note IH = 1(2)[OF False Some, folded fun_upd_def]
      show ?thesis
      proof (rule conjI; intro allI impI)
        fix out' assume "buildGraph e moduleName out = Inr out'"
        with bg IH have "explored e (out(moduleName \<mapsto> Dependencies (module meta))) out'"
          and "set (Dependencies (module meta)) \<subseteq> dom out'" by (auto simp: fun_upd_def)
        with explored_step[OF _ loc] False
        show "explored e out out' \<and> moduleName \<in> dom out'" by blast
      next
        fix err assume "buildGraph e moduleName out = Inl err"
        with bg IH show "\<exists>m. err = ModuleNotFound m \<and> local_or_controller e m = None"
          by (auto simp: fun_upd_def)
      qed
    next
      case None
      show ?thesis
      proof (cases "map_of (controllerSchema e) moduleName")
        case None': None
        with None False show ?thesis by (simp add: local_or_controller_def)
      next
        case (Some sch)
        have loc: "local_or_controller e moduleName = Some (Imports sch)"
          using Some None by (simp add: local_or_controller_def)
        have bg: "buildGraph e moduleName out =
            buildGraph_deps e (Imports sch) (out(moduleName \<mapsto> Imports sch))"
          using False None Some by simp
        note IH = 1(1)[OF False None Some, folded fun_upd_def]
        show ?thesis
        proof (rule conjI; intro allI impI)
          fix out' assume "buildGraph e moduleName out = Inr out'"
          with bg IH have "explored e (out(moduleName \<mapsto> Imports sch)) out'"
            and "set (Imports sch) \<subseteq> dom out'" by (auto simp: fun_upd_def)
          with explored_step[OF _ loc] False
          show "explored e out out' \<and> moduleName \<in> dom out'" by blast
        next
          fix err assume "buildGraph e moduleName out = Inl err"
          with bg IH show "\<exists>m. err = ModuleNotFound m \<and> local_or_controller e m = None"
            by (auto simp: fun_upd_def)
        qed
      qed
    qed
  qed
next
  case (2 e out)
  then show ?case by (simp add: explored_refl)
next
  case (3 e dep deps out)
  show ?case
  proof (cases "buildGraph e dep out")
    case (Inl err)
    with 3(1) show ?thesis by simp
  next
    case (Inr out1)
    from 3(1) Inr have e1: "explored e out out1" and d: "dep \<in> dom out1" by auto
    show ?thesis
    proof (rule conjI; intro allI impI)
      fix out' assume "buildGraph_deps e (dep # deps) out = Inr out'"
      with Inr have r: "buildGraph_deps e deps out1 = Inr out'" by simp
      with 3(2)[OF Inr] have e2: "explored e out1 out'" and s: "set deps \<subseteq> dom out'" by auto
      from e2 have "dom out1 \<subseteq> dom out'" by (auto simp: explored_def dest: map_le_implies_dom_le)
      with d s have "set (dep # deps) \<subseteq> dom out'" by auto
      with explored_trans[OF e1 e2] show "explored e out out' \<and> set (dep # deps) \<subseteq> dom out'" by simp
    next
      fix err assume "buildGraph_deps e (dep # deps) out = Inl err"
      with Inr have "buildGraph_deps e deps out1 = Inl err" by simp
      with 3(2)[OF Inr] show "\<exists>m. err = ModuleNotFound m \<and> local_or_controller e m = None" by simp
    qed
  qed
qed


lemma Graph_explores:
  assumes "Graph e moduleNames = Inr out"
  shows "(\<forall>n deps. out n = Some deps \<longrightarrow>
            local_or_controller e n = Some deps \<and> set deps \<subseteq> dom out)"
    and "moduleNames \<noteq> [] \<Longrightarrow> set moduleNames \<subseteq> dom out"
    and "moduleNames = [] \<Longrightarrow> fst ` set (moduleMetas e) \<subseteq> dom out"
proof -
  let ?names = "if moduleNames = [] then map fst (Range (moduleMetas e)) else moduleNames"
  from assms have r: "buildGraph_deps e ?names Map.empty = Inr out"
    by (simp add: Graph_def)
  with buildGraph_explores(2)[of e ?names Map.empty]
  have ex: "explored e Map.empty out" and sub: "set ?names \<subseteq> dom out" by blast+
  from ex show "\<forall>n deps. out n = Some deps \<longrightarrow>
      local_or_controller e n = Some deps \<and> set deps \<subseteq> dom out"
    by (simp add: explored_def)
  from sub show "moduleNames \<noteq> [] \<Longrightarrow> set moduleNames \<subseteq> dom out" by simp
  have "set (map fst (Range (moduleMetas e))) = fst ` set (moduleMetas e)"
    by (simp add: Range_def comp_def)
  with sub show "moduleNames = [] \<Longrightarrow> fst ` set (moduleMetas e) \<subseteq> dom out" by simp
qed

lemma Graph_error:
  assumes "Graph e moduleNames = Inl err"
  shows "\<exists>m. err = ModuleNotFound m \<and> local_or_controller e m = None"
  using assms buildGraph_explores(2) by (simp add: Graph_def)

lemma Graph_S1:
  "Graph S1 [''a''] = Inr [''a'' \<mapsto> [''b''], ''b'' \<mapsto> [''builtin''], ''builtin'' \<mapsto> []]"
  by (simp add: Graph_def S1_def)

text \<open>
  Claim C5. When \<open>Graph\<close> returns a map, every requested name is a key of it, every
  key is mapped to the dependencies of the local module of that name if there is one and
  to the imports of the controller's schema otherwise, and all of them are keys too. When
  a requested name is neither a local module nor in the controller's schema, \<open>Graph\<close>
  returns an error, which says that some module found in neither was not found.
  \<open>buildGraph\<close> returns the output map as it is for a name that is already a key. In
  scenario S1, \<open>Graph("a")\<close> is the map \<open>{a: [b], b: [builtin], builtin: []}\<close>.
\<close>

theorem Graph_resolves_dependencies:
  "(Graph e moduleNames = Inr out \<and> moduleNames \<noteq> [] \<longrightarrow>
      set moduleNames \<subseteq> dom out \<and>
      (\<forall>n deps. out n = Some deps \<longrightarrow>
         local_or_controller e n = Some deps \<and> set deps \<subseteq> dom out))
   \<and> (moduleNames \<noteq> [] \<and> (\<exists>n \<in> set moduleNames. local_or_controller e n = None) \<longrightarrow>
        (\<exists>m. Graph e moduleNames = Inl (ModuleNotFound m) \<and> local_or_controller e m = None))
   \<and> (out' n' \<noteq> None \<longrightarrow> buildGraph e n' out' = Inr out')
   \<and> Graph S1 [''a'']
       = Inr [''a'' \<mapsto> [''b''], ''b'' \<mapsto> [''builtin''], ''builtin'' \<mapsto> []]"
proof (intro conjI impI)
  assume a: "Graph e moduleNames = Inr out \<and> moduleNames \<noteq> []"
  then show "set moduleNames \<subseteq> dom out" using Graph_explores(2) by blast
  from a show "\<forall>n deps. out n = Some deps \<longrightarrow>
      local_or_controller e n = Some deps \<and> set deps \<subseteq> dom out"
    using Graph_explores(1) by blast
next
  assume a: "moduleNames \<noteq> [] \<and> (\<exists>n \<in> set moduleNames. local_or_controller e n = None)"
  then obtain n where n: "n \<in> set moduleNames" "local_or_controller e n = None" by blast
  show "\<exists>m. Graph e moduleNames = Inl (ModuleNotFound m) \<and> local_or_controller e m = None"
  proof (cases "Graph e moduleNames")
    case (Inl err)
    with Graph_error show ?thesis by blast
  next
    case (Inr out)
    with a n Graph_explores(1,2)[OF Inr] have "n \<in> dom out" by blast
    then obtain deps where "out n = Some deps" by blast
    with Graph_explores(1)[OF Inr] n(2) show ?thesis by simp
  qed
next
  assume "out' n' \<noteq> None"
  then show "buildGraph e n' out' = Inr out'" by simp
next
  show "Graph S1 [''a'']
       = Inr [''a'' \<mapsto> [''b''], ''b'' \<mapsto> [''builtin''], ''builtin'' \<mapsto> []]"
    by (rule Graph_S1)
qed

theorem Graph_resolves_dependencies_witness:
  "Graph S1 [''b''] = Inr [''b'' \<mapsto> [''builtin''], ''builtin'' \<mapsto> []]
   \<and> local_or_controller S1 ''b'' = Some [''builtin'']
   \<and> local_or_controller S1 ''builtin'' = Some []
   \<and> local_or_controller S1 ''c'' = None
   \<and> Graph S1 [''a'', ''c''] = Inl (ModuleNotFound ''c'')
   \<and> buildGraph S1 ''c'' [''c'' \<mapsto> []] = Inr [''c'' \<mapsto> []]"
proof -
  have g: "Graph S1 [''b''] = Inr [''b'' \<mapsto> [''builtin''], ''builtin'' \<mapsto> []]"
    by (simp add: Graph_def S1_def)
  have c: "local_or_controller S1 ''c'' = None"
    by (simp add: local_or_controller_def S1_def)
  have gc: "Graph S1 [''a'', ''c''] = Inl (ModuleNotFound ''c'')"
    by (simp add: Graph_def S1_def)
  from Graph_resolves_dependencies
    [of S1 "[''b'']" "[''b'' \<mapsto> [''builtin''], ''builtin'' \<mapsto> []]" "[''c'' \<mapsto> []]" "''c''"]
    g
  have "local_or_controller S1 ''b'' = Some [''builtin'']"
    and "local_or_controller S1 ''builtin'' = Some []"
    and "buildGraph S1 ''c'' [''c'' \<mapsto> []] = Inr [''c'' \<mapsto> []]"
    by (simp_all del: buildGraph.simps)
  with g c gc show ?thesis by simp
qed

subsection \<open>Skipped builds\<close>






lemma tryBuild_declared:
  assumes "tryBuild ev e mustBuild moduleName builtModules callback = (err, schs, warns, e1)"
  shows "declared e1 = declared e"
  using assms
  by (auto simp: tryBuild_def declared_def fun_eq_iff update_conv' Let_def
           split: if_splits option.splits prod.splits)

lemma buildGroup_declared:
  "buildGroup ev mb b cb grp e = (errs, schs, warns, e1) \<Longrightarrow> declared e1 = declared e"
proof (induction grp arbitrary: e errs schs warns e1)
  case Nil
  then show ?case by simp
next
  case (Cons n grp)
  obtain er sc wa ea where t: "tryBuild ev e mb n b cb = (er, sc, wa, ea)"
    by (cases "tryBuild ev e mb n b cb") auto
  obtain ers scs was eb where g: "buildGroup ev mb b cb grp ea = (ers, scs, was, eb)"
    by (cases "buildGroup ev mb b cb grp ea") auto
  from Cons.prems t g have "e1 = eb" by simp
  with Cons.IH[OF g] tryBuild_declared[OF t] show ?case by simp
qed



lemma buildGroups_declared:
  "buildGroups ev mb cb topology b e = (errs, warns, bm, e2) \<Longrightarrow> declared e2 = declared e"
proof (induction topology arbitrary: b e errs warns bm e2)
  case Nil
  then show ?case by simp
next
  case (Cons grp topology)
  obtain er sc wa ea where g: "buildGroup ev mb b cb grp e = (er, sc, wa, ea)"
    by (cases "buildGroup ev mb b cb grp e") auto
  obtain ers was bm' eb where
    r: "buildGroups ev mb cb topology (collect sc b) ea = (ers, was, bm', eb)"
    by (cases "buildGroups ev mb cb topology (collect sc b) ea") auto
  from Cons.prems g r have "e2 = eb" by simp
  with Cons.IH[OF r] buildGroup_declared[OF g] show ?case by simp
qed







subsection \<open>The dev loop: watch events\<close>


lemma BuildAndDeploy_calls_deploy_and_report:
  "deploy_and_report ev names st = (st', effs) \<Longrightarrow>
     BuildAndDeploy_calls effs = [names] \<and> engine st' = snd (BuildAndDeploy ev (engine st) names)
     \<and> moduleHashes st' = moduleHashes st"
  by (auto simp: deploy_and_report_def reportBuildFailed_def split: prod.splits option.splits)

text \<open>
  Claim C6. For a module-changed event of a module that has a meta: when the time of the
  event is before the recorded \<open>lastBuildStartTime\<close>, the iteration changes nothing and
  has no effect, so \<open>BuildAndDeploy\<close> is not called; otherwise the iteration calls
  \<open>BuildAndDeploy\<close> once, for that module alone, and goes on with the engine that the
  call leaves.
\<close>

theorem stale_module_change_is_discarded:
  "map_of (moduleMetas (engine st)) (Module (Config m)) = Some meta \<longrightarrow>
     (t < lastBuildStartTime meta \<longrightarrow>
        watchForModuleChanges_step ev st (watchEvents (WatchEventModuleChanged m t))
          = Some (st, []))
     \<and> (lastBuildStartTime meta \<le> t \<longrightarrow>
        (\<exists>st' effs.
           watchForModuleChanges_step ev st (watchEvents (WatchEventModuleChanged m t))
             = Some (st', effs)
           \<and> BuildAndDeploy_calls effs = [[Module (Config m)]]
           \<and> engine st' = snd (BuildAndDeploy ev (engine st) [Module (Config m)])))"
proof (intro impI conjI)
  assume "map_of (moduleMetas (engine st)) (Module (Config m)) = Some meta"
    "t < lastBuildStartTime meta"
  then show "watchForModuleChanges_step ev st (watchEvents (WatchEventModuleChanged m t))
          = Some (st, [])" by simp
next
  assume a: "map_of (moduleMetas (engine st)) (Module (Config m)) = Some meta"
    "lastBuildStartTime meta \<le> t"
  obtain st' effs where d: "deploy_and_report ev [Module (Config m)] st = (st', effs)"
    by (cases "deploy_and_report ev [Module (Config m)] st") auto
  with a have "watchForModuleChanges_step ev st (watchEvents (WatchEventModuleChanged m t))
             = Some (st', effs)" by simp
  with BuildAndDeploy_calls_deploy_and_report[OF d]
  show "\<exists>st' effs.
           watchForModuleChanges_step ev st (watchEvents (WatchEventModuleChanged m t))
             = Some (st', effs)
           \<and> BuildAndDeploy_calls effs = [[Module (Config m)]]
           \<and> engine st' = snd (BuildAndDeploy ev (engine st) [Module (Config m)])" by blast
qed

theorem stale_module_change_is_discarded_witness:
  "watchForModuleChanges_step quiet_env watching
       (watchEvents (WatchEventModuleChanged (module (local_module ''a'' [''builtin''] 0)) 3))
     = Some (watching, [])
   \<and> map_option (\<lambda>r. BuildAndDeploy_calls (snd r))
        (watchForModuleChanges_step quiet_env watching
           (watchEvents (WatchEventModuleChanged (module (local_module ''a'' [''builtin''] 0)) 7)))
       = Some [[''a'']]"
proof -
  let ?m = "module (local_module ''a'' [''builtin''] 0)"
  have n: "Module (Config ?m) = ''a''" by (simp add: local_module_def)
  have l: "map_of (moduleMetas (engine watching)) (Module (Config ?m))
      = Some (local_module ''a'' [''builtin''] 5)"
    by (simp add: watching_def local_module_def)
  have t: "lastBuildStartTime (local_module ''a'' [''builtin''] 5) = 5"
    by (simp add: local_module_def)
  from stale_module_change_is_discarded
    [of watching ?m "local_module ''a'' [''builtin''] 5" 3 quiet_env] l t
  have "watchForModuleChanges_step quiet_env watching
       (watchEvents (WatchEventModuleChanged ?m 3)) = Some (watching, [])" by simp
  moreover from stale_module_change_is_discarded
    [of watching ?m "local_module ''a'' [''builtin''] 5" 7 quiet_env] l t n
  have "map_option (\<lambda>r. BuildAndDeploy_calls (snd r))
        (watchForModuleChanges_step quiet_env watching
           (watchEvents (WatchEventModuleChanged ?m 7))) = Some [[''a'']]" by auto
  ultimately show ?thesis by simp
qed

text \<open>
  Claim C10. A module-added event for a name that has a meta changes nothing and has no
  effect: the meta stays and \<open>BuildAndDeploy\<close> is not called. For a name without a
  meta, the meta of the event's module is stored and \<open>BuildAndDeploy\<close> is called once,
  for that module alone, on the engine that holds the new meta.
\<close>

theorem known_module_added_is_ignored:
  "(map_of (moduleMetas (engine st)) (Module (Config m)) \<noteq> None \<longrightarrow>
      watchForModuleChanges_step ev st (watchEvents (WatchEventModuleAdded m)) = Some (st, []))
   \<and> (map_of (moduleMetas (engine st)) (Module (Config m)) = None \<longrightarrow>
        (\<exists>st' effs.
           watchForModuleChanges_step ev st (watchEvents (WatchEventModuleAdded m))
             = Some (st', effs)
           \<and> BuildAndDeploy_calls effs = [[Module (Config m)]]
           \<and> engine st' = snd (BuildAndDeploy ev (registered (engine st) m) [Module (Config m)])
           \<and> map_of (moduleMetas (registered (engine st) m)) (Module (Config m))
               = Some \<lparr>module = m, lastBuildStartTime = 0\<rparr>))"
proof (intro impI conjI)
  assume "map_of (moduleMetas (engine st)) (Module (Config m)) \<noteq> None"
  then show "watchForModuleChanges_step ev st (watchEvents (WatchEventModuleAdded m)) = Some (st, [])"
    by auto
next
  assume a: "map_of (moduleMetas (engine st)) (Module (Config m)) = None"
  let ?st = "st\<lparr>engine := registered (engine st) m\<rparr>"
  obtain st' effs where d: "deploy_and_report ev [Module (Config m)] ?st = (st', effs)"
    by (cases "deploy_and_report ev [Module (Config m)] ?st") auto
  with a have "watchForModuleChanges_step ev st (watchEvents (WatchEventModuleAdded m))
             = Some (st', effs)" by (simp add: registered_def)
  moreover have "map_of (moduleMetas (registered (engine st) m)) (Module (Config m))
               = Some \<lparr>module = m, lastBuildStartTime = 0\<rparr>"
    by (simp add: registered_def update_conv')
  ultimately show "\<exists>st' effs.
           watchForModuleChanges_step ev st (watchEvents (WatchEventModuleAdded m))
             = Some (st', effs)
           \<and> BuildAndDeploy_calls effs = [[Module (Config m)]]
           \<and> engine st' = snd (BuildAndDeploy ev (registered (engine st) m) [Module (Config m)])
           \<and> map_of (moduleMetas (registered (engine st) m)) (Module (Config m))
               = Some \<lparr>module = m, lastBuildStartTime = 0\<rparr>"
    using BuildAndDeploy_calls_deploy_and_report[OF d] by auto
qed


theorem known_module_added_is_ignored_witness:
  "watchForModuleChanges_step quiet_env watching
       (watchEvents (WatchEventModuleAdded (module (local_module ''a'' [] 0))))
     = Some (watching, [])
   \<and> map_option (\<lambda>r. BuildAndDeploy_calls (snd r))
        (watchForModuleChanges_step quiet_env watching
           (watchEvents (WatchEventModuleAdded (module (local_module ''c'' [''a''] 0)))))
       = Some [[''c'']]
   \<and> map_option (\<lambda>r. map fst (moduleMetas (engine (fst r))))
        (watchForModuleChanges_step quiet_env watching
           (watchEvents (WatchEventModuleAdded (module (local_module ''c'' [''a''] 0)))))
       = Some [''a'', ''b'', ''c'']"
proof -
  let ?a = "module (local_module ''a'' [] 0)"
  let ?c = "module (local_module ''c'' [''a''] 0)"
  have a: "map_of (moduleMetas (engine watching)) (Module (Config ?a)) \<noteq> None"
    by (simp add: watching_def local_module_def)
  have c: "map_of (moduleMetas (engine watching)) (Module (Config ?c)) = None"
    by (simp add: watching_def local_module_def)
  have n: "Module (Config ?c) = ''c''" by (simp add: local_module_def)
  from known_module_added_is_ignored[of watching ?a quiet_env] a
  have "watchForModuleChanges_step quiet_env watching (watchEvents (WatchEventModuleAdded ?a))
     = Some (watching, [])" by blast
  moreover from known_module_added_is_ignored[of watching ?c quiet_env] c n
  have "map_option (\<lambda>r. BuildAndDeploy_calls (snd r))
        (watchForModuleChanges_step quiet_env watching (watchEvents (WatchEventModuleAdded ?c)))
       = Some [[''c'']]" by (auto simp del: watchForModuleChanges_step.simps)
  moreover have "map_option (\<lambda>r. map fst (moduleMetas (engine (fst r))))
        (watchForModuleChanges_step quiet_env watching (watchEvents (WatchEventModuleAdded ?c)))
       = Some [''a'', ''b'', ''c'']"
    by (simp add: watching_def local_module_def quiet_env_def deploy_and_report_def)
  ultimately show ?thesis by simp
qed

subsection \<open>The dev loop: schema changes\<close>













subsection \<open>The reservation trigger\<close>

lemma update_into_reserved_sets_timeout:
  "runner.state OLD \<noteq> reserved \<Longrightarrow> runner.state NEW = reserved \<Longrightarrow>
   reservation_timeout NEW = None \<Longrightarrow>
   runners_set_reservation_timeout now (Some OLD) NEW
     = NEW\<lparr>reservation_timeout := Some (now + two_minutes)\<rparr>"
  by (simp add: runners_set_reservation_timeout_def sql_and_def sql_ne_def sql_eq_def
      sql_is_null_def)

text \<open>
  Claim C8. An update that moves a runner from another state into \<open>reserved\<close> with a
  null \<open>reservation_timeout\<close> gets the timeout \<open>now\<close> plus two minutes (the lemma
  above). On an insert the trigger returns the row as it was written, whatever its state:
  \<open>OLD\<close> is null, so \<open>OLD.state != 'reserved'\<close> is null and the condition is not true. A
  runner inserted in state \<open>reserved\<close> with a null \<open>reservation_timeout\<close> is stored
  reserved and without a timeout.
\<close>

theorem insert_into_reserved_keeps_null_timeout:
  "runners_set_reservation_timeout now None NEW = NEW
   \<and> insert_runner now reserved_runner [] = [reserved_runner]
   \<and> runner.state reserved_runner = reserved
   \<and> reservation_timeout reserved_runner = None"
  by (simp add: runners_set_reservation_timeout_def insert_runner_def sql_and_def sql_ne_def
      sql_eq_def sql_is_null_def reserved_runner_def)

subsection \<open>One active deployment for each module\<close>

lemma count_filter:
  "distinct (map g (filter p rows)) \<longleftrightarrow>
     (\<forall>M. length (filter (\<lambda>d. g d = M \<and> p d) rows) \<le> 1)"
proof (induction rows)
  case Nil
  show ?case by simp
next
  case (Cons d rows)
  show ?case
  proof (cases "p d")
    case False
    with Cons show ?thesis by simp
  next
    case True
    let ?n = "\<lambda>M. length (filter (\<lambda>x. g x = M \<and> p x) rows)"
    have e: "g d \<notin> set (map g (filter p rows)) \<longleftrightarrow> ?n (g d) = 0"
      by (auto simp: filter_empty_conv image_iff)
    have "(\<forall>M. length (filter (\<lambda>x. g x = M \<and> p x) (d # rows)) \<le> 1)
          \<longleftrightarrow> (\<forall>M. (if g d = M then Suc (?n M) else ?n M) \<le> 1)"
      using True by simp
    also have "\<dots> \<longleftrightarrow> ?n (g d) = 0 \<and> (\<forall>M. ?n M \<le> 1)"
    proof
      assume h: "\<forall>M. (if g d = M then Suc (?n M) else ?n M) \<le> 1"
      from h [rule_format, of "g d"] have z: "?n (g d) = 0" by simp
      have "?n M \<le> 1" for M
        using h [rule_format, of M] z by (cases "g d = M") simp_all
      with z show "?n (g d) = 0 \<and> (\<forall>M. ?n M \<le> 1)" by blast
    next
      assume "?n (g d) = 0 \<and> (\<forall>M. ?n M \<le> 1)"
      then show "\<forall>M. (if g d = M then Suc (?n M) else ?n M) \<le> 1" by auto
    qed
    finally show ?thesis
      using True Cons.IH e by simp
  qed
qed

lemma deployments_unique_idx_iff: "deployments_unique_idx rows \<longleftrightarrow> at_most_one_active rows"
  unfolding deployments_unique_idx_def at_most_one_active_def by (rule count_filter)

lemma perform_cases:
  "perform op rows =
     (if deployments_key_idx (intended op rows) \<and> deployments_unique_idx (intended op rows)
      then (None, intended op rows)
      else (Some (Errorf (''duplicate key value violates unique constraint '' @
               (if deployments_key_idx (intended op rows) then ''deployments_unique_idx''
                else ''deployments_key_idx'')) ErrConflict), rows))"
  by (simp add: perform_def write_deployments_def TranslatePGError_def unique_violation_def
      pgerrcode_defs)

lemma perform_preserves:
  "deployments_unique_idx rows \<Longrightarrow> deployments_unique_idx (snd (perform op rows))"
  by (simp add: perform_cases)

lemma perform_all_preserves:
  "deployments_unique_idx rows \<Longrightarrow> deployments_unique_idx (perform_all ops rows)"
  by (induction ops arbitrary: rows) (simp_all add: perform_preserves)

lemma two_active:
  assumes "d1 \<in> set rows" "d2 \<in> set rows" "deployment.key d1 = k" "deployment.key d2 \<noteq> k"
    "module_id d1 = module_id d2" "0 < min_replicas d2" "0 < n"
  shows "\<not> at_most_one_active (intended (SetDeploymentDesiredReplicas k n) rows)"
proof -
  let ?rows' = "intended (SetDeploymentDesiredReplicas k n) rows"
  let ?P = "\<lambda>d. module_id d = module_id d2 \<and> 0 < min_replicas d"
  have a: "d1\<lparr>min_replicas := n\<rparr> \<in> set ?rows'" using assms(1,3) by force
  have b: "d2 \<in> set ?rows'" using assms(2,4) by force
  have ne: "d1\<lparr>min_replicas := n\<rparr> \<noteq> d2" using assms(3,4) by auto
  have "{d1\<lparr>min_replicas := n\<rparr>, d2} \<subseteq> set (filter ?P ?rows')"
    using a b assms(5,6,7) by simp
  then have "card {d1\<lparr>min_replicas := n\<rparr>, d2} \<le> card (set (filter ?P ?rows'))"
    by (intro card_mono) auto
  also have "\<dots> \<le> length (filter ?P ?rows')" by (rule card_length)
  finally have "card {d1\<lparr>min_replicas := n\<rparr>, d2} \<le> length (filter ?P ?rows')" .
  then
have two: "2 \<le> length (filter ?P ?rows')" using ne by simp
  show ?thesis
  proof
    assume "at_most_one_active ?rows'"
    then have "length (filter ?P ?rows') \<le> 1"
      unfolding at_most_one_active_def by blast
    with two show False by simp
  qed
qed


text \<open>
  Claim C1. For every module at most one row of \<open>deployments\<close> has a positive
  \<open>min_replicas\<close>, in every state that the operations reach from the empty table, and
  every operation keeps it so; an operation whose rows would have two such rows of one
  module fails with an error that wraps \<open>ErrConflict\<close> and leaves the rows as they
  were; so does setting a positive \<open>min_replicas\<close> on a deployment \<open>d1\<close> while another
  deployment \<open>d2\<close> of its module is active.
\<close>

theorem one_active_deployment_per_module:
  "at_most_one_active (perform_all ops [])
   \<and> (at_most_one_active rows \<longrightarrow> at_most_one_active (snd (perform op rows)))
   \<and> (\<not> at_most_one_active (intended op rows) \<longrightarrow>
        (\<exists>e. perform op rows = (Some e, rows) \<and> errors_Is e ErrConflict))
   \<and> (d1 \<in> set rows \<and> d2 \<in> set rows \<and> deployment.key d1 = k \<and> deployment.key d2 \<noteq> k
        \<and> module_id d1 = module_id d2 \<and> 0 < min_replicas d2 \<and> 0 < n \<longrightarrow>
        (\<exists>e. perform (SetDeploymentDesiredReplicas k n) rows = (Some e, rows)
             \<and> errors_Is e ErrConflict))"
proof (intro conjI impI)
  have "deployments_unique_idx []" by (simp add: deployments_unique_idx_def)
  then show "at_most_one_active (perform_all ops [])"
    using perform_all_preserves deployments_unique_idx_iff by blast
next
  assume "at_most_one_active rows"
  then show "at_most_one_active (snd (perform op rows))"
    using perform_preserves deployments_unique_idx_iff by blast
next
  assume "\<not> at_most_one_active (intended op rows)"
  then have "\<not> deployments_unique_idx (intended op rows)"
    by (simp add: deployments_unique_idx_iff)
  then show "\<exists>e. perform op rows = (Some e, rows) \<and> errors_Is e ErrConflict"
    by (simp add: perform_cases)
next
  assume "d1 \<in> set rows \<and> d2 \<in> set rows \<and> deployment.key d1 = k \<and> deployment.key d2 \<noteq> k
        \<and> module_id d1 = module_id d2 \<and> 0 < min_replicas d2 \<and> 0 < n"
  then have "\<not> at_most_one_active (intended (SetDeploymentDesiredReplicas k n) rows)"
    using two_active by blast
  then have "\<not> deployments_unique_idx (intended (SetDeploymentDesiredReplicas k n) rows)"
    by (simp add: deployments_unique_idx_iff)
  then show "\<exists>e. perform (SetDeploymentDesiredReplicas k n) rows = (Some e, rows)
             \<and> errors_Is e ErrConflict"
    by (simp add: perform_cases)
qed

theorem one_active_deployment_per_module_witness:
  "perform_all [CreateDeployment 1 ''m-d1'', SetDeploymentDesiredReplicas ''m-d1'' 1,
                CreateDeployment 1 ''m-d2'', ReplaceDeployment ''m-d1'' ''m-d2'' 2] [] = S4
   \<and> at_most_one_active S4
   \<and> (\<exists>e. perform (SetDeploymentDesiredReplicas ''m-d1'' 1) S4 = (Some e, S4)
          \<and> errors_Is e ErrConflict)"
proof -
  let ?ops = "[CreateDeployment 1 ''m-d1'', SetDeploymentDesiredReplicas ''m-d1'' 1,
                CreateDeployment 1 ''m-d2'', ReplaceDeployment ''m-d1'' ''m-d2'' 2]"
  have run: "perform_all ?ops [] = S4"
    by (simp add: perform_cases deployments_key_idx_def deployments_unique_idx_def S4_def)
  note t = one_active_deployment_per_module
      [of ?ops S4 "SetDeploymentDesiredReplicas ''m-d1'' 1" "S4 ! 0" "S4 ! 1" "''m-d1''" 1,
       unfolded run]
  from t have a: "at_most_one_active S4" by blast
  have b: "\<exists>e. perform (SetDeploymentDesiredReplicas ''m-d1'' 1) S4 = (Some e, S4)
          \<and> errors_Is e ErrConflict"
    using t by (simp add: S4_def)
  from run a b show ?thesis by blast
qed


end
